theory Spec2Isabelle
  imports Main "HOL-Library.AList"
begin

section \<open>The vending machine of vending_machine_version_6_fixed.py\<close>

text \<open>
  The state-machine core of the simulator: the classes \<^verbatim>\<open>Money\<close>, \<^verbatim>\<open>Coins\<close>,
  \<^verbatim>\<open>Products\<close>, \<^verbatim>\<open>VendingMachine\<close> and the four state classes. Python's integers are
  \<open>int\<close>, its strings are \<open>string\<close>, and a dict is an association list in insertion
  order (the order matters for \<^verbatim>\<open>Coins.get_values\<close>). What the program prints for the
  customer and what it asks of the servo and the LED is recorded in a trace.
\<close>

subsection \<open>Money\<close>

record Money =
  amount :: int

definition Money_init :: Money where
  "Money_init = \<lparr>amount = 0\<rparr>"

definition add :: "Money \<Rightarrow> int \<Rightarrow> Money" where
  "add self v = self\<lparr>amount := amount self + v\<rparr>"

text \<open>\<^verbatim>\<open>subtract\<close> returns the success flag together with the ledger it leaves.\<close>

definition subtract :: "Money \<Rightarrow> int \<Rightarrow> bool \<times> Money" where
  "subtract self v =
     (if v \<le> amount self then (True, self\<lparr>amount := amount self - v\<rparr>)
      else (False, self))"

definition get_amount :: "Money \<Rightarrow> int" where
  "get_amount self = amount self"

text \<open>
  \<^verbatim>\<open>clear\<close> has no \<^verbatim>\<open>return\<close> statement, so the call evaluates to Python's
  \<^verbatim>\<open>None\<close>: the first component is the returned value, \<open>None\<close> for \<^verbatim>\<open>None\<close>
  and \<open>Some n\<close> for an integer \<open>n\<close>.
\<close>

definition clear :: "Money \<Rightarrow> int option \<times> Money" where
  "clear self = (None, self\<lparr>amount := 0\<rparr>)"

subsection \<open>Coins and Products\<close>

type_synonym Coins = "(string \<times> (string \<times> int)) list"
type_synonym Products = "(string \<times> (string \<times> int)) list"

definition Coins_init :: Coins where
  "Coins_init = []"

definition Coins_add_coin :: "Coins \<Rightarrow> string \<Rightarrow> string \<Rightarrow> int \<Rightarrow> Coins" where
  "Coins_add_coin self k name v = AList.update k (name, v) self"

definition get_coin :: "Coins \<Rightarrow> string \<Rightarrow> (string \<times> int) option" where
  "get_coin self k = map_of self k"

definition coin_exists :: "Coins \<Rightarrow> string \<Rightarrow> bool" where
  "coin_exists self k = (map_of self k \<noteq> None)"

text \<open>\<^verbatim>\<open>sorted(values, reverse=True)\<close>: the face values in descending order.\<close>

definition get_values :: "Coins \<Rightarrow> int list" where
  "get_values self = rev (sort (map (\<lambda>coin. snd (snd coin)) self))"

definition Products_init :: Products where
  "Products_init = []"

definition add_product :: "Products \<Rightarrow> string \<Rightarrow> string \<Rightarrow> int \<Rightarrow> Products" where
  "add_product self k name price = AList.update k (name, price) self"

definition get_product :: "Products \<Rightarrow> string \<Rightarrow> (string \<times> int) option" where
  "get_product self k = map_of self k"

definition product_exists :: "Products \<Rightarrow> string \<Rightarrow> bool" where
  "product_exists self k = (map_of self k \<noteq> None)"

subsection \<open>The machine\<close>

datatype state_name = waiting | add_coins | deliver_product | count_change

text \<open>
  What the machine lets the outside see, in the order it happens:
  the lines it prints for the customer, the calls of \<^verbatim>\<open>dispense_product\<close> and
  \<^verbatim>\<open>blink_change_led\<close>, the refresh of the amount display, and, for every coin of
  change, the line \<^verbatim>\<open>Returning v cents\<close> with the single blink of the change LED that
  follows it (\<open>Returning v\<close>).
\<close>

datatype effect =
    PleaseInsertCoins
  | NoMoneyToReturn
  | InsufficientFunds int int
  | ChangeDue int
  | BlinkChangeLed nat
  | Buzz string
  | DispenseProduct
  | RemainingBalance int
  | Returning int
  | Display int

text \<open>
  The attributes of \<^verbatim>\<open>VendingMachine\<close>. \<open>state\<close> is \<open>None\<close> until the first
  \<^verbatim>\<open>go_to_state\<close>; \<open>window\<close> says whether a window was given. The dict \<^verbatim>\<open>states\<close> is
  the fixed registry of the four state objects and is represented by \<open>state_name\<close>.
\<close>

record machine =
  state :: "state_name option"
  event :: string
  money :: Money
  products :: Products
  coins :: Coins
  change_due :: int
  window :: bool
  coin_values :: "int list"
  last_update_message_shown :: bool
  trace :: "effect list"

datatype py_error = TypeError

text \<open>
  A call either returns the machine it leaves, raises, or never returns.
\<close>

datatype result = Return machine | Raise py_error | Hang

definition VendingMachine_init :: "bool \<Rightarrow> Products \<Rightarrow> Coins \<Rightarrow> machine" where
  "VendingMachine_init w ps cs =
     \<lparr>state = None, event = [], money = Money_init, products = ps, coins = cs,
      change_due = 0, window = w, coin_values = get_values cs,
      last_update_message_shown = False, trace = []\<rparr>"

definition emit :: "effect list \<Rightarrow> machine \<Rightarrow> machine" where
  "emit es m = m\<lparr>trace := trace m @ es\<rparr>"

definition dispense_product :: "machine \<Rightarrow> machine" where
  "dispense_product m = emit [DispenseProduct] m"

definition blink_change_led :: "nat \<Rightarrow> machine \<Rightarrow> machine" where
  "blink_change_led blink_count m = emit [BlinkChangeLed blink_count] m"

definition add_coin :: "machine \<Rightarrow> string \<Rightarrow> machine" where
  "add_coin m coin_key =
     (case get_coin (coins m) coin_key of
        None \<Rightarrow> m
      | Some coin_info \<Rightarrow>
          m\<lparr>money := add (money m) (snd coin_info), last_update_message_shown := False\<rparr>)"

text \<open>
  The refresh of the amount display; the window's own \<^verbatim>\<open>update\<close> is taken to
  succeed.
\<close>

definition update_display :: "machine \<Rightarrow> machine" where
  "update_display m =
     (if window m
      then (emit [Display (amount (money m))] m)\<lparr>last_update_message_shown := True\<rparr>
      else m)"

text \<open>No state class overrides \<^verbatim>\<open>on_exit\<close>.\<close>

definition on_exit :: "state_name \<Rightarrow> machine \<Rightarrow> machine" where
  "on_exit s m = m"

text \<open>
  \<^verbatim>\<open>go_to_state\<close> leaves the old state, installs the new one and runs its entry
  action; the entry action of \<^verbatim>\<open>deliver_product\<close> calls \<^verbatim>\<open>go_to_state\<close> again.
  Subscripting the \<^verbatim>\<open>None\<close> that \<^verbatim>\<open>get_product\<close> gives for an unknown key raises
  \<^verbatim>\<open>TypeError\<close>.
\<close>

function go_to_state :: "machine \<Rightarrow> state_name \<Rightarrow> result"
  and on_entry :: "state_name \<Rightarrow> machine \<Rightarrow> result" where
  "go_to_state m state_name =
     on_entry state_name
       ((case state m of None \<Rightarrow> m | Some s \<Rightarrow> on_exit s m)\<lparr>state := Some state_name\<rparr>)"
| "on_entry waiting m = Return m"
| "on_entry add_coins m = Return m"
| "on_entry deliver_product m =
     (case get_product (products m) (event m) of
        None \<Rightarrow> Raise TypeError
      | Some product \<Rightarrow>
          (let m1 = m\<lparr>money := snd (subtract (money m) (snd product))\<rparr>;
               m2 = emit [Buzz (fst product)] m1;
               m3 = dispense_product m2;
               m4 = emit [RemainingBalance (amount (money m3))] m3
           in go_to_state m4 add_coins))"
| "on_entry count_change m =
     Return (blink_change_led 3 (emit [ChangeDue (change_due m)] m))"
  by pat_completeness auto
termination
  by (relation "measure (\<lambda>x. case x of
        Inl (m, s) \<Rightarrow> (if s = deliver_product then 4 else 2)
      | Inr (s, m) \<Rightarrow> (if s = deliver_product then 3 else 1))") auto

subsection \<open>The update methods of the four states\<close>

definition WaitingState_update :: "machine \<Rightarrow> result" where
  "WaitingState_update m =
     (if coin_exists (coins m) (event m)
      then go_to_state (add_coin m (event m)) add_coins
      else if product_exists (products m) (event m)
      then Return (emit [PleaseInsertCoins] m)
      else if event m = ''RETURN''
      then Return (emit [NoMoneyToReturn] m)
      else Return m)"

definition AddCoinsState_update :: "machine \<Rightarrow> result" where
  "AddCoinsState_update m =
     (if event m = ''RETURN''
      then (let m1 = m\<lparr>change_due := get_amount (money m)\<rparr>;
                m2 = m1\<lparr>money := snd (clear (money m1))\<rparr>
            in go_to_state m2 count_change)
      else if coin_exists (coins m) (event m)
      then Return (add_coin m (event m))
      else if product_exists (products m) (event m)
      then (case get_product (products m) (event m) of
              None \<Rightarrow> Raise TypeError
            | Some product \<Rightarrow>
                (let product_price = snd product;
                     current_balance = get_amount (money m)
                 in if current_balance \<ge> product_price
                    then go_to_state m deliver_product
                    else Return (emit [InsufficientFunds product_price current_balance] m)))
      else Return m)"

text \<open>\<^verbatim>\<open>DeliverProductState\<close> inherits the empty \<^verbatim>\<open>update\<close> of \<^verbatim>\<open>State\<close>.\<close>

definition DeliverProductState_update :: "machine \<Rightarrow> result" where
  "DeliverProductState_update m = Return m"

text \<open>
  The inner \<^verbatim>\<open>while machine.change_due >= coin_value\<close> loop. Nothing in the
  program bounds it: with a coin value that is not positive it never ends, which is the
  value \<open>None\<close>.
\<close>

partial_function (option) return_coins :: "int \<Rightarrow> machine \<Rightarrow> machine option" where
  "return_coins coin_value m =
     (if change_due m \<ge> coin_value
      then return_coins coin_value
             (emit [Returning coin_value] (m\<lparr>change_due := change_due m - coin_value\<rparr>))
      else Some m)"

text \<open>The outer \<^verbatim>\<open>for coin_value in machine.coin_values\<close> loop.\<close>

fun for_coin_values :: "int list \<Rightarrow> machine \<Rightarrow> machine option" where
  "for_coin_values [] m = Some m"
| "for_coin_values (coin_value # rest) m =
     (case return_coins coin_value m of
        None \<Rightarrow> None
      | Some m' \<Rightarrow> for_coin_values rest m')"

definition CountChangeState_update :: "machine \<Rightarrow> result" where
  "CountChangeState_update m =
     (case for_coin_values (coin_values m) m of
        None \<Rightarrow> Hang
      | Some m' \<Rightarrow> if change_due m' = 0 then go_to_state m' waiting else Return m')"

subsection \<open>The update of the machine, and runs\<close>

definition State_update :: "state_name \<Rightarrow> machine \<Rightarrow> result" where
  "State_update s m =
     (case s of
        waiting \<Rightarrow> WaitingState_update m
      | add_coins \<Rightarrow> AddCoinsState_update m
      | deliver_product \<Rightarrow> DeliverProductState_update m
      | count_change \<Rightarrow> CountChangeState_update m)"

definition update :: "machine \<Rightarrow> result" where
  "update m =
     (case (case state m of None \<Rightarrow> Return m | Some s \<Rightarrow> State_update s m) of
        Return m' \<Rightarrow> Return (update_display m')
      | Raise e \<Rightarrow> Raise e
      | Hang \<Rightarrow> Hang)"

text \<open>
  One turn of the main loop (\<^verbatim>\<open>vending.event = event; vending.update()\<close>), which is
  also what \<^verbatim>\<open>button_action\<close> does with the event \<^verbatim>\<open>RETURN\<close>.
\<close>

definition step :: "machine \<Rightarrow> string \<Rightarrow> result" where
  "step m ev = update (m\<lparr>event := ev\<rparr>)"

fun run :: "machine \<Rightarrow> string list \<Rightarrow> result" where
  "run m [] = Return m"
| "run m (ev # evs) =
     (case step m ev of
        Return m' \<Rightarrow> run m' evs
      | Raise e \<Rightarrow> Raise e
      | Hang \<Rightarrow> Hang)"

subsection \<open>The shipped configuration\<close>

text \<open>
  \<^verbatim>\<open>setup_coins\<close> and \<^verbatim>\<open>setup_products\<close>. The display names of the coins are written
  in ASCII here (the source has a cent sign); nothing depends on them.
\<close>

definition setup_coins :: Coins where
  "setup_coins =
     Coins_add_coin (Coins_add_coin (Coins_add_coin (Coins_add_coin (Coins_add_coin
       Coins_init ''5'' ''5c'' 5) ''10'' ''10c'' 10) ''25'' ''25c'' 25)
       ''100'' ''$1'' 100) ''200'' ''$2'' 200"

definition setup_products :: Products where
  "setup_products =
     add_product (add_product (add_product (add_product (add_product
     (add_product (add_product (add_product (add_product (add_product
       Products_init ''surprise'' ''SURPRISE'' 5) ''chips'' ''CHIPS'' 50)
       ''candy'' ''CANDY'' 75) ''soda'' ''SODA'' 100) ''gum'' ''GUM'' 25)
       ''cookies'' ''COOKIES'' 85) ''water'' ''WATER'' 95) ''juice'' ''JUICE'' 125)
       ''crackers'' ''CRACKERS'' 60) ''nuts'' ''NUTS'' 150"

text \<open>
  The main program builds the machine, registers the four states and enters
  \<^verbatim>\<open>waiting\<close>.
\<close>

definition start :: "bool \<Rightarrow> Products \<Rightarrow> Coins \<Rightarrow> result" where
  "start w ps cs = go_to_state (VendingMachine_init w ps cs) waiting"

text \<open>The machines that the main loop can see between two updates.\<close>

inductive reachable :: "bool \<Rightarrow> Products \<Rightarrow> Coins \<Rightarrow> machine \<Rightarrow> bool"
  for w :: bool and ps :: Products and cs :: Coins where
  reach_start: "start w ps cs = Return m \<Longrightarrow> reachable w ps cs m"
| reach_step: "reachable w ps cs m \<Longrightarrow> step m ev = Return m' \<Longrightarrow> reachable w ps cs m'"

text \<open>The coin signals in a piece of the trace, in order.\<close>

definition coin_signals :: "effect list \<Rightarrow> int list" where
  "coin_signals es = concat (map (\<lambda>e. case e of Returning v \<Rightarrow> [v] | _ \<Rightarrow> []) es)"

subsection \<open>Notions used to state the properties\<close>

text \<open>The machine the main program starts in, with its window.\<close>

definition shipped :: machine where
  "shipped = (VendingMachine_init True setup_products setup_coins)\<lparr>state := Some waiting\<rparr>"

text \<open>
  A catalog with the shipped coins and one product whose price is not a multiple of
  five, built with the program's own \<^verbatim>\<open>add_product\<close>.
\<close>

definition mint_products :: Products where
  "mint_products = add_product Products_init ''mint'' ''MINT'' 2"

definition mint_machine :: machine where
  "mint_machine = (VendingMachine_init True mint_products setup_coins)\<lparr>state := Some waiting\<rparr>"

text \<open>The machine a run ends in (the starting machine when the run does not return).\<close>

definition machine_after :: "machine \<Rightarrow> string list \<Rightarrow> machine" where
  "machine_after m evs = (case run m evs of Return m' \<Rightarrow> m' | Raise e \<Rightarrow> m | Hang \<Rightarrow> m)"

text \<open>The shipped machine after three 10-cent coins.\<close>

definition three_dimes :: machine where
  "three_dimes = machine_after shipped [''10'', ''10'', ''10'']"

text \<open>The shipped machine after one 10-cent coin and the return event.\<close>

definition return_pressed :: machine where
  "return_pressed = machine_after shipped [''10'', ''RETURN'']"

text \<open>
  The machine with the 2-cent product after a 5-cent coin, the purchase and the return
  event: it owes 3 cents.
\<close>

definition mint_owed :: machine where
  "mint_owed = machine_after mint_machine [''5'', ''mint'', ''RETURN'']"

text \<open>What an update added to the trace.\<close>

definition emitted :: "machine \<Rightarrow> machine \<Rightarrow> effect list" where
  "emitted m m' = drop (length (trace m)) (trace m')"

text \<open>
  What the loops of \<^verbatim>\<open>CountChangeState.update\<close> change and what they leave: only
  \<open>change_due\<close> and the trace, and the trace grows by coin signals only.
\<close>

definition frame :: "machine \<Rightarrow> machine \<Rightarrow> bool" where
  "frame m m' \<longleftrightarrow>
     state m' = state m \<and> money m' = money m \<and> products m' = products m
     \<and> coins m' = coins m \<and> window m' = window m \<and> coin_values m' = coin_values m
     \<and> event m' = event m \<and> last_update_message_shown m' = last_update_message_shown m
     \<and> (\<exists>vs. trace m' = trace m @ map Returning vs)"

text \<open>
  For positive coin values the two loops compute these (lemma \<open>for_coin_values_pos\<close>):
  the amount left over, and the coins paid out on the way.
\<close>

fun remainder :: "int list \<Rightarrow> int \<Rightarrow> int" where
  "remainder [] d = d"
| "remainder (c # cs) d = remainder cs (if d < c then d else d mod c)"

fun payout :: "int list \<Rightarrow> int \<Rightarrow> int list" where
  "payout [] d = []"
| "payout (c # cs) d =
     replicate (nat (d div c)) c @ payout cs (if d < c then d else d mod c)"

text \<open>The sum of the face values of a sequence of coin keys.\<close>

definition coin_total :: "Coins \<Rightarrow> string list \<Rightarrow> int" where
  "coin_total cs keys =
     sum_list (map (\<lambda>k. case get_coin cs k of None \<Rightarrow> 0 | Some c \<Rightarrow> snd c) keys)"

text \<open>The ledger and the owed amount are non-negative multiples of five.\<close>

definition mult5 :: "machine \<Rightarrow> bool" where
  "mult5 m \<longleftrightarrow> 0 \<le> amount (money m) \<and> 5 dvd amount (money m)
     \<and> 0 \<le> change_due m \<and> 5 dvd change_due m"


section \<open>Properties\<close>

subsection \<open>Entering a state\<close>

lemma go_to_state_waiting: "go_to_state m waiting = Return (m\<lparr>state := Some waiting\<rparr>)"
  by (simp add: on_exit_def split: option.split)

lemma go_to_state_add_coins:
  "go_to_state m add_coins = Return (m\<lparr>state := Some add_coins\<rparr>)"
  by (simp add: on_exit_def split: option.split)

lemma go_to_state_count_change:
  "go_to_state m count_change =
     Return (m\<lparr>state := Some count_change,
               trace := trace m @ [ChangeDue (change_due m), BlinkChangeLed 3]\<rparr>)"
  by (simp add: on_exit_def blink_change_led_def emit_def split: option.split)

lemma go_to_state_deliver_product:
  "go_to_state m deliver_product =
     (case get_product (products m) (event m) of
        None \<Rightarrow> Raise TypeError
      | Some product \<Rightarrow>
          Return (m\<lparr>state := Some add_coins,
                    money := snd (subtract (money m) (snd product)),
                    trace := trace m @ [Buzz (fst product), DispenseProduct,
                      RemainingBalance (amount (snd (subtract (money m) (snd product))))]\<rparr>))"
  by (simp add: on_exit_def dispense_product_def emit_def Let_def split: option.split)

lemmas go_to_state_eqs =
  go_to_state_waiting go_to_state_add_coins go_to_state_count_change
  go_to_state_deliver_product

declare go_to_state.simps [simp del] on_entry.simps [simp del]

subsection \<open>The loops of the change return\<close>

text \<open>
  Whatever the coin values are, a loop that returns has changed nothing but
  \<open>change_due\<close> and the trace.
\<close>

lemma frame_refl: "frame m m"
  by (simp add: frame_def)

lemma frame_trans: "frame a b \<Longrightarrow> frame b c \<Longrightarrow> frame a c"
  unfolding frame_def by (metis append.assoc map_append)

lemma frame_pay: "frame m (emit [Returning c] (m\<lparr>change_due := d\<rparr>))"
  unfolding frame_def emit_def by (auto intro: exI[of _ "[c]"])

lemma return_coins_frame:
  assumes "return_coins c m = Some m'"
  shows "frame m m'"
proof (rule return_coins.raw_induct[where P = "\<lambda>c m m'. frame m m'", OF _ assms])
  fix rc :: "int \<Rightarrow> machine \<Rightarrow> machine option" and c m m'
  assume IH: "\<And>c m m'. rc c m = Some m' \<Longrightarrow> frame m m'"
    and eq: "(if c \<le> change_due m
      then rc c (emit [Returning c] (m\<lparr>change_due := change_due m - c\<rparr>))
      else Some m) = Some m'"
  show "frame m m'"
  proof (cases "c \<le> change_due m")
    case True
    with eq have "frame (emit [Returning c] (m\<lparr>change_due := change_due m - c\<rparr>)) m'"
      by (simp add: IH)
    then show ?thesis using frame_pay frame_trans by blast
  next
    case False
    with eq show ?thesis by (simp add: frame_refl)
  qed
qed

text \<open>
  With a coin value that is not positive and not above the owed amount the inner loop
  never returns, and with it the update of \<^verbatim>\<open>count_change\<close>.
\<close>

lemma return_coins_hangs:
  assumes "c \<le> 0" and "c \<le> change_due m"
  shows "return_coins c m = None"
proof (rule ccontr)
  assume "return_coins c m \<noteq> None"
  then obtain m' where r: "return_coins c m = Some m'" by auto
  have "\<not> (c \<le> 0 \<and> c \<le> change_due m)"
  proof (rule return_coins.raw_induct[where P = "\<lambda>c m m'. \<not> (c \<le> 0 \<and> c \<le> change_due m)",
        OF _ r])
    fix rc :: "int \<Rightarrow> machine \<Rightarrow> machine option" and c m m'
    assume IH: "\<And>c m m'. rc c m = Some m' \<Longrightarrow> \<not> (c \<le> 0 \<and> c \<le> change_due m)"
      and eq: "(if c \<le> change_due m
        then rc c (emit [Returning c] (m\<lparr>change_due := change_due m - c\<rparr>))
        else Some m) = Some m'"
    show "\<not> (c \<le> 0 \<and> c \<le> change_due m)"
    proof
      assume a: "c \<le> 0 \<and> c \<le> change_due m"
      with eq have "rc c (emit [Returning c] (m\<lparr>change_due := change_due m - c\<rparr>)) = Some m'"
        by simp
      from IH[OF this] a show False by (simp add: emit_def)
    qed
  qed
  with assms show False by simp
qed

lemma hang_example:
  "CountChangeState_update (m\<lparr>coin_values := [0], change_due := 0\<rparr>) = Hang"
  by (simp add: CountChangeState_update_def return_coins_hangs)

lemma for_coin_values_frame:
  "for_coin_values cs m = Some m' \<Longrightarrow> frame m m'"
proof (induction cs arbitrary: m)
  case Nil
  then show ?case by (simp add: frame_refl)
next
  case (Cons c cs)
  then show ?case
    by (auto split: option.splits dest: return_coins_frame intro: frame_trans)
qed

lemma small_div: 
  assumes "0 < (c::int)" "d < c" shows "nat (d div c) = 0"
proof (cases "d < 0")
  case True
  then have "d div c < 0" using assms pos_imp_zdiv_neg_iff[of c d] by simp
  then show ?thesis by simp
next
  case False
  then show ?thesis using assms by (simp add: div_pos_pos_trivial)
qed

lemma return_coins_pos:
  assumes "0 < c"
  shows "return_coins c m =
    Some (m\<lparr>change_due := (if change_due m < c then change_due m else change_due m mod c),
            trace := trace m @ map Returning (replicate (nat (change_due m div c)) c)\<rparr>)"
proof (induction "nat (change_due m)" arbitrary: m rule: less_induct)
  case less
  show ?case
  proof (cases "c \<le> change_due m")
    case False
    then show ?thesis using small_div[OF assms, of "change_due m"]
      by (subst return_coins.simps) simp
  next
    case True
    let ?m = "emit [Returning c] (m\<lparr>change_due := change_due m - c\<rparr>)"
    have lt: "nat (change_due ?m) < nat (change_due m)"
      using True assms by (simp add: emit_def)
    have d: "change_due m div c = (change_due m - c) div c + 1"
      using assms div_add_self2[of c "change_due m - c"] by simp
    have nn: "0 \<le> (change_due m - c) div c"
      using True assms by (simp add: pos_imp_zdiv_nonneg_iff)
    have r: "replicate (nat (change_due m div c)) c
               = c # replicate (nat ((change_due m - c) div c)) c"
      using nn by (simp add: d nat_add_distrib)
    have md: "(change_due m - c) mod c = change_due m mod c"
      by simp
    have small: "change_due m - c < c \<Longrightarrow> change_due m - c = change_due m mod c"
      using True by (metis md diff_ge_0_iff_ge mod_pos_pos_trivial)
    have "return_coins c m = return_coins c ?m"
      using True by (subst return_coins.simps) simp
    also have "\<dots> = Some (?m\<lparr>change_due := (if change_due ?m < c then change_due ?m else change_due ?m mod c),
            trace := trace ?m @ map Returning (replicate (nat (change_due ?m div c)) c)\<rparr>)"
      by (rule less[OF lt])
    also have "\<dots> = Some (m\<lparr>change_due := (if change_due m < c then change_due m else change_due m mod c),
            trace := trace m @ map Returning (replicate (nat (change_due m div c)) c)\<rparr>)"
      using True assms by (auto simp add: emit_def r md small)
    finally show ?thesis .
  qed
qed

lemma for_coin_values_pos:
  "\<forall>c \<in> set cs. 0 < c \<Longrightarrow>
   for_coin_values cs m =
     Some (m\<lparr>change_due := remainder cs (change_due m),
             trace := trace m @ map Returning (payout cs (change_due m))\<rparr>)"
proof (induction cs arbitrary: m)
  case Nil
  show ?case by simp
next
  case (Cons c cs)
  then have c: "0 < c" and cs: "\<forall>c \<in> set cs. 0 < c" by simp_all
  show ?case
    by (simp add: return_coins_pos[OF c] Cons.IH[OF cs])
qed

lemma remainder_small:
  "\<forall>c \<in> set cs. 0 < c \<Longrightarrow> \<forall>c \<in> set cs. d < c \<Longrightarrow> remainder cs d = d \<and> payout cs d = []"
  by (induction cs arbitrary: d) (auto simp: small_div)

lemma remainder_le:
  "\<forall>c \<in> set cs. 0 < c \<Longrightarrow> remainder cs d \<le> d"
proof (induction cs arbitrary: d)
  case Nil
  then show ?case by simp
next
  case (Cons c cs)
  have "(if d < c then d else d mod c) \<le> d" using Cons.prems
    by (auto simp: not_less intro: zmod_le_nonneg_dividend order_trans[of 0 c d] less_imp_le)
  moreover have "remainder cs (if d < c then d else d mod c) \<le> (if d < c then d else d mod c)"
    using Cons by simp
  ultimately show ?case by simp
qed

lemma remainder_less:
  "\<forall>c \<in> set cs. 0 < c \<Longrightarrow> \<forall>c \<in> set cs. remainder cs d < c"
proof (induction cs arbitrary: d)
  case Nil
  then show ?case by simp
next
  case (Cons c cs)
  then have c: "0 < c" and cs: "\<forall>c \<in> set cs. 0 < c" by simp_all
  let ?d = "if d < c then d else d mod c"
  have "?d < c" using c by simp
  moreover have "remainder cs ?d \<le> ?d" by (rule remainder_le[OF cs])
  ultimately have "remainder (c # cs) d < c" by simp
  moreover have "\<forall>c' \<in> set cs. remainder (c # cs) d < c'"
    using Cons.IH[OF cs, of ?d] by simp
  ultimately show ?case by simp
qed

lemma remainder_idem:
  "\<forall>c \<in> set cs. 0 < c \<Longrightarrow> remainder cs (remainder cs d) = remainder cs d \<and> payout cs (remainder cs d) = []"
  using remainder_less remainder_small by blast

lemma payout_sum:
  "\<forall>c \<in> set cs. 0 < c \<Longrightarrow> 0 \<le> d \<Longrightarrow> sum_list (payout cs d) + remainder cs d = d"
proof (induction cs arbitrary: d)
  case Nil
  then show ?case by simp
next
  case (Cons c cs)
  then have c: "0 < c" and cs: "\<forall>c \<in> set cs. 0 < c" by simp_all
  let ?d = "if d < c then d else d mod c"
  have nn: "0 \<le> ?d" using c Cons.prems(2) by simp
  have q: "0 \<le> d div c" using c Cons.prems(2) by (simp add: pos_imp_zdiv_nonneg_iff)
  have "sum_list (replicate (nat (d div c)) c) = (d div c) * c"
    using q by (simp add: sum_list_replicate)
  moreover have "(d div c) * c + ?d = d"
    using c Cons.prems(2) by (simp add: div_pos_pos_trivial)
  moreover have "sum_list (payout cs ?d) + remainder cs ?d = ?d"
    by (rule Cons.IH[OF cs nn])
  ultimately show ?case by simp
qed

subsection \<open>Steps and reachable machines\<close>

lemmas state_update_defs =
  State_update_def WaitingState_update_def AddCoinsState_update_def
  DeliverProductState_update_def CountChangeState_update_def

lemmas helper_defs =
  add_coin_def get_coin_def coin_exists_def product_exists_def get_product_def add_def
  get_amount_def clear_def emit_def update_display_def Let_def

text \<open>What a step never touches.\<close>

lemma step_config:
  assumes "step m ev = Return m'"
  shows "products m' = products m \<and> coins m' = coins m \<and> coin_values m' = coin_values m
         \<and> window m' = window m \<and> event m' = ev"
  using assms
  by (auto simp: step_def update_def state_update_defs helper_defs go_to_state_eqs frame_def
      split: option.splits state_name.splits if_splits result.splits
      dest!: for_coin_values_frame)

lemma step_state:
  assumes "step m ev = Return m'"
    and "state m = Some waiting \<or> state m = Some add_coins \<or> state m = Some count_change"
  shows "state m' = Some waiting \<or> state m' = Some add_coins \<or> state m' = Some count_change"
  using assms
  by (auto simp: step_def update_def state_update_defs helper_defs go_to_state_eqs frame_def
      split: option.splits state_name.splits if_splits result.splits
      dest!: for_coin_values_frame)

lemma start_eq:
  "start w ps cs = Return ((VendingMachine_init w ps cs)\<lparr>state := Some waiting\<rparr>)"
  by (simp add: start_def go_to_state_eqs)

lemma reachable_run:
  "reachable w ps cs m \<Longrightarrow> run m evs = Return m' \<Longrightarrow> reachable w ps cs m'"
proof (induction evs arbitrary: m)
  case Nil
  then show ?case by simp
next
  case (Cons ev evs)
  then show ?case
    by (auto split: result.splits intro: reach_step)
qed

lemma reachable_state:
  "reachable w ps cs m \<Longrightarrow>
     state m = Some waiting \<or> state m = Some add_coins \<or> state m = Some count_change"
proof (induction rule: reachable.induct)
  case (reach_start m)
  then show ?case by (auto simp: start_eq)
next
  case (reach_step m ev m')
  then show ?case using step_state by blast
qed

lemma reachable_config:
  "reachable w ps cs m \<Longrightarrow>
     products m = ps \<and> coins m = cs \<and> coin_values m = get_values cs \<and> window m = w"
proof (induction rule: reachable.induct)
  case (reach_start m)
  then show ?case by (auto simp: start_eq VendingMachine_init_def)
next
  case (reach_step m ev m')
  then show ?case using step_config by metis
qed

subsection \<open>Evaluating concrete runs\<close>

lemmas catalog_defs =
  shipped_def mint_machine_def mint_products_def VendingMachine_init_def setup_coins_def
  setup_products_def Coins_add_coin_def Coins_init_def add_product_def Products_init_def
  get_values_def Money_init_def

lemmas eval_defs =
  catalog_defs step_def update_def state_update_defs helper_defs go_to_state_eqs
  subtract_def machine_after_def return_coins.simps coin_signals_def emitted_def

lemma run_machine_after: "run m evs = Return m' \<Longrightarrow> machine_after m evs = m'"
  by (simp add: machine_after_def)

lemma reachable_shipped: "reachable True setup_products setup_coins shipped"
  by (rule reach_start) (simp add: start_eq shipped_def)

lemma shipped_coin_values: "coin_values shipped = [200, 100, 25, 10, 5]"
  by (simp add: catalog_defs)

lemma run_three_dimes:
  "run shipped [''10'', ''10'', ''10''] =
     Return (shipped\<lparr>state := Some add_coins, event := ''10'', money := \<lparr>amount = 30\<rparr>,
        last_update_message_shown := True, trace := [Display 10, Display 20, Display 30]\<rparr>)"
  by (simp add: eval_defs)

lemma run_gum:
  "run shipped [''10'', ''10'', ''10'', ''gum''] =
     Return (shipped\<lparr>state := Some add_coins, event := ''gum'', money := \<lparr>amount = 5\<rparr>,
        last_update_message_shown := True,
        trace := [Display 10, Display 20, Display 30, Buzz ''GUM'', DispenseProduct,
                  RemainingBalance 5, Display 5]\<rparr>)"
  by (simp add: eval_defs)

subsection \<open>Single steps\<close>

lemma update_display_fields [simp]:
  "state (update_display m) = state m" "money (update_display m) = money m"
  "change_due (update_display m) = change_due m" "coins (update_display m) = coins m"
  "products (update_display m) = products m" "coin_values (update_display m) = coin_values m"
  "event (update_display m) = event m" "window (update_display m) = window m"
  by (simp_all add: update_display_def emit_def)

lemma coin_signals_append [simp]: "coin_signals (xs @ ys) = coin_signals xs @ coin_signals ys"
  by (simp add: coin_signals_def)

lemma coin_signals_Returning [simp]: "coin_signals (map Returning vs) = vs"
  by (induction vs) (simp_all add: coin_signals_def)

lemma coin_signals_drop_Display: "coin_signals (drop k [Display a]) = []"
  by (cases k) (simp_all add: coin_signals_def)

lemma coin_signals_update_display [simp]:
  "coin_signals (emitted m (update_display m')) = coin_signals (emitted m m')"
  by (simp add: emitted_def update_display_def emit_def coin_signals_drop_Display)

lemma coin_signals_simps [simp]:
  "coin_signals [] = []"
  "coin_signals (Returning v # es) = v # coin_signals es"
  "coin_signals (Display a # es) = coin_signals es"
  "coin_signals (ChangeDue a # es) = coin_signals es"
  "coin_signals (BlinkChangeLed k # es) = coin_signals es"
  "coin_signals (if b then [Display a] else []) = []"
  by (simp_all add: coin_signals_def)

lemma trace_update_display:
  "trace (update_display m) = trace m @ (if window m then [Display (amount (money m))] else [])"
  by (simp add: update_display_def emit_def)

lemma step_count_change:
  assumes "state m = Some count_change" and "\<forall>c \<in> set (coin_values m). 0 < c"
  shows "\<exists>m'. step m ev = Return m'
    \<and> change_due m' = remainder (coin_values m) (change_due m)
    \<and> state m' = (if remainder (coin_values m) (change_due m) = 0 then Some waiting
                  else Some count_change)
    \<and> money m' = money m \<and> coin_values m' = coin_values m
    \<and> coin_signals (emitted m m') = payout (coin_values m) (change_due m)
    \<and> trace m' = trace m @ map Returning (payout (coin_values m) (change_due m))
         @ (if window m then [Display (amount (money m))] else [])"
  using assms
  by (simp add: step_def update_def state_update_defs for_coin_values_pos go_to_state_eqs
      trace_update_display emitted_def)

lemma step_return:
  assumes "state m = Some add_coins"
  shows "\<exists>m'. step m ''RETURN'' = Return m'
    \<and> change_due m' = amount (money m) \<and> amount (money m') = 0
    \<and> state m' = Some count_change \<and> coin_values m' = coin_values m
    \<and> coin_signals (emitted m m') = []
    \<and> trace m' = trace m @ [ChangeDue (amount (money m)), BlinkChangeLed 3]
         @ (if window m then [Display 0] else [])"
  using assms
  by (simp add: step_def update_def state_update_defs get_amount_def clear_def Let_def
      go_to_state_eqs trace_update_display emitted_def)


lemma three_dimes_eq:
  "three_dimes = shipped\<lparr>state := Some add_coins, event := ''10'', money := \<lparr>amount = 30\<rparr>,
        last_update_message_shown := True, trace := [Display 10, Display 20, Display 30]\<rparr>"
  by (simp add: three_dimes_def run_machine_after[OF run_three_dimes])

lemma three_dimes_fields:
  "state three_dimes = Some add_coins" "amount (money three_dimes) = 30"
  "coin_values three_dimes = [200, 100, 25, 10, 5]" "change_due three_dimes = 0"
  "products three_dimes = setup_products" "coins three_dimes = setup_coins"
  by (simp_all add: three_dimes_eq catalog_defs)

lemma shipped_remainder:
  assumes "0 \<le> d" "5 dvd d"
  shows "remainder [200, 100, 25, 10, 5] d = 0"
proof -
  have m: "0 \<le> x \<Longrightarrow> 0 < c \<Longrightarrow> (if x < c then x else x mod c) = x mod c" for x c :: int
    by simp
  have "remainder [200, 100, 25, 10, 5] d = d mod 200 mod 100 mod 25 mod 10 mod 5"
    using assms by (simp add: m)
  also have "\<dots> = d mod 5" by (simp add: mod_mod_cancel)
  also have "\<dots> = 0" using assms by simp
  finally show ?thesis .
qed

subsection \<open>The ledger\<close>

text \<open>
  C4. For every balance \<open>b\<close> and every amount \<open>a\<close>, \<^verbatim>\<open>subtract\<close> returns true
  exactly when \<open>a \<le> b\<close>, and then leaves \<open>b - a\<close>; when \<open>a > b\<close> it returns false and
  leaves the ledger as it was; so a balance that is not negative stays so.
\<close>

theorem subtract_debit:
  "(fst (subtract b a) \<longleftrightarrow> a \<le> amount b)
   \<and> (a \<le> amount b \<longrightarrow> amount (snd (subtract b a)) = amount b - a)
   \<and> (amount b < a \<longrightarrow> \<not> fst (subtract b a) \<and> snd (subtract b a) = b)
   \<and> (0 \<le> amount b \<longrightarrow> 0 \<le> amount (snd (subtract b a)))"
  by (simp add: subtract_def)

theorem subtract_debit_witness:
  "fst (subtract \<lparr>amount = 30\<rparr> 25) \<and> amount (snd (subtract \<lparr>amount = 30\<rparr> 25)) = 5
   \<and> \<not> fst (subtract \<lparr>amount = 5\<rparr> 25) \<and> snd (subtract \<lparr>amount = 5\<rparr> 25) = \<lparr>amount = 5\<rparr>
   \<and> 0 \<le> amount (snd (subtract \<lparr>amount = 30\<rparr> 25))"
  using subtract_debit [of "\<lparr>amount = 30\<rparr>" 25] subtract_debit [of "\<lparr>amount = 5\<rparr>" 25]
  by simp

text \<open>
  C3, as the claim states it, fails: \<^verbatim>\<open>clear\<close> returns nothing, so clearing a ledger
  of 30 cents does not give 30 back.
\<close>

theorem clear_returns_amount_counterexample:
  "fst (clear \<lparr>amount = 30\<rparr>) \<noteq> Some (amount \<lparr>amount = 30\<rparr>)"
  by (simp add: clear_def)

text \<open>
  C3, amended. \<^verbatim>\<open>clear\<close> resets the balance to 0 and returns \<^verbatim>\<open>None\<close>. The amount
  that is cleared reaches the caller another way: on the return event
  \<^verbatim>\<open>AddCoinsState.update\<close> reads the balance into \<open>change_due\<close> before it calls
  \<^verbatim>\<open>clear\<close>.
\<close>

theorem clear_resets:
  "amount (snd (clear b)) = 0 \<and> fst (clear b) = None
   \<and> (\<exists>m'. AddCoinsState_update (m\<lparr>event := ''RETURN''\<rparr>) = Return m'
         \<and> change_due m' = amount (money m) \<and> amount (money m') = 0)"
  by (simp add: clear_def AddCoinsState_update_def get_amount_def Let_def
      go_to_state_count_change)

subsection \<open>The transient state\<close>

text \<open>
  C9. \<^verbatim>\<open>deliver_product\<close> is never seen between two updates: every machine the main
  loop can reach, with any catalog, is in \<^verbatim>\<open>waiting\<close>, \<^verbatim>\<open>add_coins\<close> or
  \<^verbatim>\<open>count_change\<close>, because the entry action of \<^verbatim>\<open>deliver_product\<close>, when it
  returns, has already moved the machine on to \<^verbatim>\<open>add_coins\<close>.
\<close>

theorem deliver_product_transient:
  assumes "reachable w ps cs m"
  shows "(state m = Some waiting \<or> state m = Some add_coins \<or> state m = Some count_change)
         \<and> state m \<noteq> Some deliver_product
         \<and> (\<forall>m0 m1. on_entry deliver_product m0 = Return m1 \<longrightarrow> state m1 = Some add_coins)"
proof -
  have "on_entry deliver_product m0 = Return m1 \<Longrightarrow> state m1 = Some add_coins" for m0 m1
    by (auto simp: on_entry.simps go_to_state_eqs Let_def split: option.splits)
  with reachable_state[OF assms] show ?thesis by auto
qed

theorem deliver_product_transient_witness:
  "reachable True setup_products setup_coins
     (machine_after shipped [''10'', ''10'', ''10'', ''gum''])
   \<and> state (machine_after shipped [''10'', ''10'', ''10'', ''gum'']) = Some add_coins
   \<and> Buzz ''GUM'' \<in> set (trace (machine_after shipped [''10'', ''10'', ''10'', ''gum'']))"
proof -
  let ?m = "machine_after shipped [''10'', ''10'', ''10'', ''gum'']"
  have r: "reachable True setup_products setup_coins ?m"
    using reachable_run[OF reachable_shipped run_gum] run_machine_after[OF run_gum] by simp
  have b: "Buzz ''GUM'' \<in> set (trace ?m)"
    by (simp add: run_machine_after[OF run_gum])
  have "state ?m \<noteq> Some waiting" "state ?m \<noteq> Some count_change"
    by (simp_all add: run_machine_after[OF run_gum])
  with deliver_product_transient[OF r] r b show ?thesis by blast
qed

subsection \<open>The scenarios of the shipped machine\<close>

text \<open>
  C6 (scenario A). The shipped machine starts in \<^verbatim>\<open>waiting\<close> with balance 0, and
  \<^verbatim>\<open>gum\<close> costs 25 cents. The first 10-cent coin moves it to \<^verbatim>\<open>add_coins\<close>; after
  three of them it is in \<^verbatim>\<open>add_coins\<close> with balance 30. Selecting \<^verbatim>\<open>gum\<close> then makes
  \<^verbatim>\<open>AddCoinsState.update\<close> call \<^verbatim>\<open>go_to_state('deliver_product')\<close>, whose entry
  action debits the price, calls \<^verbatim>\<open>dispense_product\<close> and goes back to
  \<^verbatim>\<open>add_coins\<close>: the update leaves balance 5 in state \<^verbatim>\<open>add_coins\<close>.
\<close>

theorem scenario_A:
  "state shipped = Some waiting \<and> amount (money shipped) = 0
   \<and> get_product (products shipped) ''gum'' = Some (''GUM'', 25)
   \<and> run shipped [''10''] = Return (machine_after shipped [''10''])
   \<and> state (machine_after shipped [''10'']) = Some add_coins
   \<and> run shipped [''10'', ''10'', ''10''] = Return three_dimes
   \<and> state three_dimes = Some add_coins \<and> amount (money three_dimes) = 30
   \<and> AddCoinsState_update (three_dimes\<lparr>event := ''gum''\<rparr>)
       = go_to_state (three_dimes\<lparr>event := ''gum''\<rparr>) deliver_product
   \<and> step three_dimes ''gum'' = Return (machine_after three_dimes [''gum''])
   \<and> emitted three_dimes (machine_after three_dimes [''gum''])
       = [Buzz ''GUM'', DispenseProduct, RemainingBalance 5, Display 5]
   \<and> amount (money (machine_after three_dimes [''gum''])) = 30 - 25
   \<and> state (machine_after three_dimes [''gum'']) = Some add_coins"
proof -
  have a: "state shipped = Some waiting" "amount (money shipped) = 0"
    "get_product (products shipped) ''gum'' = Some (''GUM'', 25)"
    by (simp_all add: catalog_defs get_product_def)
  have b: "run shipped [''10''] = Return (machine_after shipped [''10''])"
    "state (machine_after shipped [''10'']) = Some add_coins"
    by (simp_all add: eval_defs)
  have c: "run shipped [''10'', ''10'', ''10''] = Return three_dimes"
    by (simp only: run_three_dimes three_dimes_eq)
  have d: "AddCoinsState_update (three_dimes\<lparr>event := ''gum''\<rparr>)
       = go_to_state (three_dimes\<lparr>event := ''gum''\<rparr>) deliver_product"
    by (simp add: three_dimes_eq AddCoinsState_update_def helper_defs catalog_defs)
  have e: "step three_dimes ''gum'' = Return (machine_after three_dimes [''gum''])"
    "emitted three_dimes (machine_after three_dimes [''gum''])
       = [Buzz ''GUM'', DispenseProduct, RemainingBalance 5, Display 5]"
    "amount (money (machine_after three_dimes [''gum''])) = 30 - 25"
    "state (machine_after three_dimes [''gum'']) = Some add_coins"
    by (simp_all add: three_dimes_eq eval_defs)
  from a b c d e three_dimes_fields show ?thesis by simp
qed

text \<open>
  C5 (scenario B). In \<^verbatim>\<open>add_coins\<close> with balance 30 and the denominations
  200, 100, 25, 10, 5, the return event sets \<open>change_due\<close> to 30, clears the balance
  and enters \<^verbatim>\<open>count_change\<close> without a coin signal (the entry action prints the
  change due and blinks the LED three times). The update that follows, whatever its
  event, runs \<^verbatim>\<open>CountChangeState.update\<close>: it signals exactly the coins 25 and 5, in
  that order, and leaves the machine in \<^verbatim>\<open>waiting\<close> with balance 0 and nothing owed.
\<close>

theorem scenario_B:
  assumes "state m = Some add_coins" and "amount (money m) = 30"
    and "coin_values m = [200, 100, 25, 10, 5]"
  shows "\<exists>m1. step m ''RETURN'' = Return m1 \<and> state m1 = Some count_change
           \<and> change_due m1 = 30 \<and> amount (money m1) = 0
           \<and> coin_signals (emitted m m1) = []
           \<and> (\<forall>ev. \<exists>m2. step m1 ev = Return m2
                  \<and> coin_signals (emitted m1 m2) = [25, 5]
                  \<and> state m2 = Some waiting \<and> amount (money m2) = 0 \<and> change_due m2 = 0)"
proof -
  from step_return[OF assms(1)] obtain m1 where
    m1: "step m ''RETURN'' = Return m1" "change_due m1 = 30" "amount (money m1) = 0"
      "state m1 = Some count_change" "coin_values m1 = [200, 100, 25, 10, 5]"
      "coin_signals (emitted m m1) = []"
    using assms by auto
  have pos: "\<forall>c \<in> set (coin_values m1). 0 < c"
    by (simp add: m1)
  have "\<exists>m2. step m1 ev = Return m2 \<and> coin_signals (emitted m1 m2) = [25, 5]
          \<and> state m2 = Some waiting \<and> amount (money m2) = 0 \<and> change_due m2 = 0" for ev
    using step_count_change[OF m1(4) pos, of ev] by (auto simp: m1)
  with m1 show ?thesis by blast
qed

theorem scenario_B_witness:
  "state three_dimes = Some add_coins \<and> amount (money three_dimes) = 30
   \<and> coin_values three_dimes = [200, 100, 25, 10, 5]
   \<and> run three_dimes [''RETURN'', ''__TIMEOUT__'']
       = Return (machine_after three_dimes [''RETURN'', ''__TIMEOUT__''])
   \<and> change_due (machine_after three_dimes [''RETURN'']) = 30
   \<and> state (machine_after three_dimes [''RETURN'']) = Some count_change
   \<and> coin_signals (emitted (machine_after three_dimes [''RETURN''])
        (machine_after three_dimes [''RETURN'', ''__TIMEOUT__''])) = [25, 5]
   \<and> state (machine_after three_dimes [''RETURN'', ''__TIMEOUT__'']) = Some waiting
   \<and> amount (money (machine_after three_dimes [''RETURN'', ''__TIMEOUT__''])) = 0"
proof -
  note h = three_dimes_fields(1-3)
  from scenario_B[OF h] obtain m1 where
    m1: "step three_dimes ''RETURN'' = Return m1" "state m1 = Some count_change"
      "change_due m1 = 30"
    and nx: "\<forall>ev. \<exists>m2. step m1 ev = Return m2
                  \<and> coin_signals (emitted m1 m2) = [25, 5]
                  \<and> state m2 = Some waiting \<and> amount (money m2) = 0 \<and> change_due m2 = 0"
    by blast
  from nx obtain m2 where
    m2: "step m1 ''__TIMEOUT__'' = Return m2" "coin_signals (emitted m1 m2) = [25, 5]"
      "state m2 = Some waiting" "amount (money m2) = 0"
    by blast
  have a1: "machine_after three_dimes [''RETURN''] = m1"
    using m1 by (simp add: machine_after_def)
  have a2: "machine_after three_dimes [''RETURN'', ''__TIMEOUT__''] = m2"
    and r2: "run three_dimes [''RETURN'', ''__TIMEOUT__''] = Return m2"
    using m1 m2 by (simp_all add: machine_after_def)
  show ?thesis
    using h m1 m2 by (simp only: a1 a2 r2)
qed

subsection \<open>The debit of the delivery\<close>

text \<open>
  C7. Whenever an update delivers a product (its trace shows the line
  \<^verbatim>\<open>Buzz... Whir... Click...\<close> that only the entry action of \<^verbatim>\<open>deliver_product\<close>
  prints), the machine was in \<^verbatim>\<open>add_coins\<close>, the event was a product whose price
  the balance covered, and so the \<^verbatim>\<open>subtract\<close> of the entry action returned true and
  took exactly the price: its failure branch is not taken on any path into
  \<^verbatim>\<open>deliver_product\<close>. This holds for every machine and catalog, hence for every
  reachable one.
\<close>

theorem deliver_debit_succeeds:
  assumes "step m ev = Return m'" and "Buzz n \<in> set (emitted m m')"
  shows "state m = Some add_coins
    \<and> (\<exists>price. get_product (products m) ev = Some (n, price)
          \<and> price \<le> amount (money m) \<and> fst (subtract (money m) price)
          \<and> amount (money m') = amount (money m) - price)"
proof (cases "state m")
  case None
  with assms show ?thesis
    by (auto simp: step_def update_def emitted_def trace_update_display split: if_splits)
next
  case (Some s)
  show ?thesis
  proof (cases s)
    case waiting
    with Some assms show ?thesis
      by (auto simp: step_def update_def State_update_def WaitingState_update_def helper_defs
          go_to_state_eqs emitted_def split: if_splits option.splits)
  next
    case add_coins
    with Some assms show ?thesis
      by (auto simp: step_def update_def State_update_def AddCoinsState_update_def helper_defs
          go_to_state_eqs emitted_def subtract_def split: if_splits option.splits)
  next
    case deliver_product
    with Some assms show ?thesis
      by (auto simp: step_def update_def State_update_def DeliverProductState_update_def
          helper_defs emitted_def split: if_splits)
  next
    case count_change
    with Some assms show ?thesis
      by (auto simp: step_def update_def State_update_def CountChangeState_update_def
          go_to_state_eqs emitted_def trace_update_display frame_def
          split: if_splits option.splits dest!: for_coin_values_frame)
  qed
qed

theorem deliver_debit_succeeds_witness:
  "step three_dimes ''gum'' = Return (machine_after three_dimes [''gum''])
   \<and> Buzz ''GUM'' \<in> set (emitted three_dimes (machine_after three_dimes [''gum'']))
   \<and> state three_dimes = Some add_coins
   \<and> get_product (products three_dimes) ''gum'' = Some (''GUM'', 25)
   \<and> fst (subtract (money three_dimes) 25)
   \<and> amount (money (machine_after three_dimes [''gum''])) = amount (money three_dimes) - 25"
proof -
  have s: "step three_dimes ''gum'' = Return (machine_after three_dimes [''gum''])"
    and b: "Buzz ''GUM'' \<in> set (emitted three_dimes (machine_after three_dimes [''gum'']))"
    by (simp_all add: three_dimes_eq eval_defs)
  have p: "get_product (products three_dimes) ''gum'' = Some (''GUM'', 25)"
    by (simp add: three_dimes_fields get_product_def catalog_defs)
  from deliver_debit_succeeds[OF s b] p s b show ?thesis
    by auto
qed

subsection \<open>Unknown events\<close>






lemma return_pressed_eq:
  "run shipped [''10'', ''RETURN''] = Return return_pressed"
  "return_pressed = shipped\<lparr>state := Some count_change, event := ''RETURN'',
      money := \<lparr>amount = 0\<rparr>, change_due := 10, last_update_message_shown := True,
      trace := [Display 10, ChangeDue 10, BlinkChangeLed 3, Display 0]\<rparr>"
  by (simp_all add: return_pressed_def eval_defs)




subsection \<open>Change that the coins cannot make\<close>

text \<open>
  The coins paid out are coins of the list; with the remainder they add up to the owed
  amount (lemma \<open>payout_sum\<close>), so a remainder of 0 means that the amount was
  made from the denominations.
\<close>

lemma payout_subset: "set (payout cs d) \<subseteq> set cs"
  by (induction cs arbitrary: d) auto

lemma step_stuck:
  assumes "state m = Some count_change" and "\<forall>c \<in> set (coin_values m). 0 < c"
    and "\<forall>c \<in> set (coin_values m). change_due m < c" and "change_due m \<noteq> 0"
  shows "\<exists>m'. step m ev = Return m' \<and> state m' = Some count_change
           \<and> change_due m' = change_due m \<and> money m' = money m
           \<and> coin_values m' = coin_values m
           \<and> (\<exists>ds. trace m' = trace m @ ds \<and> coin_signals ds = [])"
proof -
  from remainder_small[OF assms(2,3)]
  have r: "remainder (coin_values m) (change_due m) = change_due m"
    and p: "payout (coin_values m) (change_due m) = []"
    by simp_all
  from step_count_change[OF assms(1,2), of ev] show ?thesis
    using assms(4) by (auto simp: r p)
qed

lemma run_stuck:
  assumes "state m = Some count_change" and "\<forall>c \<in> set (coin_values m). 0 < c"
    and "\<forall>c \<in> set (coin_values m). change_due m < c" and "change_due m \<noteq> 0"
  shows "\<exists>m'. run m evs = Return m' \<and> state m' = Some count_change
           \<and> change_due m' = change_due m \<and> money m' = money m
           \<and> coin_signals (emitted m m') = []"
proof -
  have "\<exists>m'. run m evs = Return m' \<and> state m' = Some count_change
           \<and> change_due m' = change_due m \<and> money m' = money m
           \<and> (\<exists>ds. trace m' = trace m @ ds \<and> coin_signals ds = [])"
    using assms
  proof (induction evs arbitrary: m)
    case Nil
    then show ?case by simp
  next
    case (Cons ev evs)
    from step_stuck[OF Cons.prems, of ev] obtain m1 ds1 where
      m1: "step m ev = Return m1" "state m1 = Some count_change"
        "change_due m1 = change_due m" "money m1 = money m" "coin_values m1 = coin_values m"
        "trace m1 = trace m @ ds1" "coin_signals ds1 = []"
      by blast
    have "\<exists>m'. run m1 evs = Return m' \<and> state m' = Some count_change
           \<and> change_due m' = change_due m1 \<and> money m' = money m1
           \<and> (\<exists>ds. trace m' = trace m1 @ ds \<and> coin_signals ds = [])"
      using Cons.prems m1 by (intro Cons.IH) simp_all
    then obtain m' ds where
      m': "run m1 evs = Return m'" "state m' = Some count_change"
        "change_due m' = change_due m1" "money m' = money m1"
        "trace m' = trace m1 @ ds" "coin_signals ds = []"
      by blast
    have "trace m' = trace m @ (ds1 @ ds)" "coin_signals (ds1 @ ds) = []"
      using m1 m' by simp_all
    with m1 m' show ?case by (simp del: coin_signals_append)
  qed
  then show ?thesis by (auto simp: emitted_def)
qed

lemma mint_owed_eq:
  "run mint_machine [''5'', ''mint'', ''RETURN''] = Return mint_owed"
  "mint_owed = mint_machine\<lparr>state := Some count_change, event := ''RETURN'',
      money := \<lparr>amount = 0\<rparr>, change_due := 3, last_update_message_shown := True,
      trace := [Display 5, Buzz ''MINT'', DispenseProduct, RemainingBalance 3, Display 3,
                ChangeDue 3, BlinkChangeLed 3, Display 0]\<rparr>"
  by (simp_all add: mint_owed_def eval_defs)

lemma reachable_mint_owed: "reachable True mint_products setup_coins mint_owed"
proof -
  have "reachable True mint_products setup_coins mint_machine"
    by (rule reach_start) (simp add: start_eq mint_machine_def)
  from reachable_run[OF this mint_owed_eq(1)] show ?thesis .
qed

lemma mint_owed_fields:
  "state mint_owed = Some count_change" "change_due mint_owed = 3"
  "coin_values mint_owed = [200, 100, 25, 10, 5]" "money mint_owed = \<lparr>amount = 0\<rparr>"
  by (simp_all add: mint_owed_eq(2) catalog_defs)

text \<open>
  C1, as the claim states it, fails. With the shipped coins and a product of 2 cents,
  a 5-cent coin, the purchase and the return event leave the machine in
  \<^verbatim>\<open>count_change\<close> owing 3 cents. The next update returns, but it signals nothing
  except the refresh of the display, and the machine is still in \<^verbatim>\<open>count_change\<close>,
  not in \<^verbatim>\<open>waiting\<close>, still owing 3 cents.
\<close>

theorem change_not_representable_counterexample:
  "reachable True mint_products setup_coins mint_owed
   \<and> state mint_owed = Some count_change \<and> change_due mint_owed = 3
   \<and> coin_values mint_owed = [200, 100, 25, 10, 5]
   \<and> step mint_owed ''__TIMEOUT__'' = Return (machine_after mint_owed [''__TIMEOUT__''])
   \<and> emitted mint_owed (machine_after mint_owed [''__TIMEOUT__'']) = [Display 0]
   \<and> state (machine_after mint_owed [''__TIMEOUT__'']) = Some count_change
   \<and> state (machine_after mint_owed [''__TIMEOUT__'']) \<noteq> Some waiting
   \<and> change_due (machine_after mint_owed [''__TIMEOUT__'']) = 3"
proof -
  have "step mint_owed ''__TIMEOUT__'' = Return (machine_after mint_owed [''__TIMEOUT__''])"
    "emitted mint_owed (machine_after mint_owed [''__TIMEOUT__'']) = [Display 0]"
    "state (machine_after mint_owed [''__TIMEOUT__'']) = Some count_change"
    "change_due (machine_after mint_owed [''__TIMEOUT__'']) = 3"
    by (simp_all add: mint_owed_eq(2) eval_defs)
  with reachable_mint_owed mint_owed_fields show ?thesis by simp
qed

text \<open>
  C1, amended. When every coin value is positive and the greedy loops leave a
  remainder that is not 0 (as they must when the owed amount cannot be made from the
  denominations), the update of \<^verbatim>\<open>count_change\<close> returns: the iteration is bounded.
  It signals the coins it could pay, which are not taken back, and the refresh of the
  display, and nothing else; the machine stays in \<^verbatim>\<open>count_change\<close> with the
  remainder as \<open>change_due\<close>, and every later sequence of updates leaves it there, with
  the same remainder and balance and no further coin signal.
\<close>

theorem change_not_representable:
  assumes "state m = Some count_change" and "\<forall>c \<in> set (coin_values m). 0 < c"
    and "remainder (coin_values m) (change_due m) \<noteq> 0"
  shows "\<exists>m'. step m ev = Return m' \<and> state m' = Some count_change
           \<and> change_due m' = remainder (coin_values m) (change_due m)
           \<and> money m' = money m
           \<and> emitted m m' = map Returning (payout (coin_values m) (change_due m))
                @ (if window m then [Display (amount (money m))] else [])
           \<and> (\<forall>evs. \<exists>m''. run m' evs = Return m'' \<and> state m'' = Some count_change
                  \<and> change_due m'' = change_due m' \<and> money m'' = money m'
                  \<and> coin_signals (emitted m' m'') = [])"
proof -
  from step_count_change[OF assms(1,2), of ev] assms(3) obtain m' where
    m': "step m ev = Return m'" "state m' = Some count_change"
      "change_due m' = remainder (coin_values m) (change_due m)" "money m' = money m"
      "coin_values m' = coin_values m"
      "trace m' = trace m @ map Returning (payout (coin_values m) (change_due m))
         @ (if window m then [Display (amount (money m))] else [])"
    by auto
  have pos: "\<forall>c \<in> set (coin_values m'). 0 < c"
    using assms(2) m'(5) by simp
  have small: "\<forall>c \<in> set (coin_values m'). change_due m' < c"
    using remainder_less[OF assms(2), of "change_due m"] m'(3,5) by simp
  have nz: "change_due m' \<noteq> 0"
    using assms(3) m'(3) by simp
  have "emitted m m' = map Returning (payout (coin_values m) (change_due m))
                @ (if window m then [Display (amount (money m))] else [])"
    by (simp add: emitted_def m'(6))
  with m' run_stuck[OF m'(2) pos small nz] show ?thesis by blast
qed

theorem change_not_representable_witness:
  "state mint_owed = Some count_change
   \<and> remainder (coin_values mint_owed) (change_due mint_owed) = 3
   \<and> run mint_owed [''__TIMEOUT__'', ''5'']
       = Return (machine_after mint_owed [''__TIMEOUT__'', ''5''])
   \<and> state (machine_after mint_owed [''__TIMEOUT__'']) = Some count_change
   \<and> change_due (machine_after mint_owed [''__TIMEOUT__'']) = 3
   \<and> emitted mint_owed (machine_after mint_owed [''__TIMEOUT__'']) = [Display 0]
   \<and> state (machine_after mint_owed [''__TIMEOUT__'', ''5'']) = Some count_change
   \<and> change_due (machine_after mint_owed [''__TIMEOUT__'', ''5'']) = 3
   \<and> money (machine_after mint_owed [''__TIMEOUT__'', ''5'']) = money mint_owed"
proof -
  have pos: "\<forall>c \<in> set (coin_values mint_owed). 0 < c"
    by (simp add: mint_owed_fields)
  have r: "remainder (coin_values mint_owed) (change_due mint_owed) = 3"
    and p: "payout (coin_values mint_owed) (change_due mint_owed) = []"
    and w: "window mint_owed"
    by (simp_all add: mint_owed_fields) (simp add: mint_owed_eq(2) catalog_defs)
  have nz: "remainder (coin_values mint_owed) (change_due mint_owed) \<noteq> 0"
    by (simp add: r)
  from change_not_representable[OF mint_owed_fields(1) pos nz, of "''__TIMEOUT__''"]
  obtain m' where
    m': "step mint_owed ''__TIMEOUT__'' = Return m'" "state m' = Some count_change"
      "change_due m' = 3" "money m' = money mint_owed"
      "emitted mint_owed m' = [Display 0]"
    and nx: "\<forall>evs. \<exists>m''. run m' evs = Return m'' \<and> state m'' = Some count_change
                  \<and> change_due m'' = change_due m' \<and> money m'' = money m'
                  \<and> coin_signals (emitted m' m'') = []"
    by (auto simp: r p w mint_owed_fields)
  from nx obtain m'' where
    m'': "run m' [''5''] = Return m''" "state m'' = Some count_change"
      "change_due m'' = change_due m'" "money m'' = money m'"
    by blast
  have a1: "machine_after mint_owed [''__TIMEOUT__''] = m'"
    using m'(1) by (simp add: machine_after_def)
  have r2: "run mint_owed [''__TIMEOUT__'', ''5''] = Return m''"
    using m'(1) m''(1) by simp
  then have a2: "machine_after mint_owed [''__TIMEOUT__'', ''5''] = m''"
    by (simp add: machine_after_def)
  show ?thesis
    using m' m'' r mint_owed_fields(1) by (simp only: a1 a2 r2)
qed

subsection \<open>The shipped machine always makes exact change\<close>

lemma step_total:
  assumes "\<forall>c \<in> set (coin_values m). 0 < c"
  shows "\<exists>m'. step m ev = Return m'"
proof (cases "state m")
  case None
  then show ?thesis by (simp add: step_def update_def)
next
  case (Some s)
  show ?thesis
  proof (cases s)
    case waiting
    with Some show ?thesis
      by (simp add: step_def update_def State_update_def WaitingState_update_def
          go_to_state_eqs)
  next
    case add_coins
    with Some show ?thesis
      by (auto simp: step_def update_def State_update_def AddCoinsState_update_def
          go_to_state_eqs Let_def product_exists_def get_product_def split: option.splits)
  next
    case deliver_product
    with Some show ?thesis
      by (simp add: step_def update_def State_update_def DeliverProductState_update_def)
  next
    case count_change
    with Some step_count_change[OF _ assms, of ev] show ?thesis by auto
  qed
qed

lemma setup_coins_eq:
  "setup_coins = [(''5'', ''5c'', 5), (''10'', ''10c'', 10), (''25'', ''25c'', 25),
     (''100'', ''$1'', 100), (''200'', ''$2'', 200)]"
  by (simp add: setup_coins_def Coins_add_coin_def Coins_init_def)

lemma setup_products_eq:
  "setup_products = [(''surprise'', ''SURPRISE'', 5), (''chips'', ''CHIPS'', 50),
     (''candy'', ''CANDY'', 75), (''soda'', ''SODA'', 100), (''gum'', ''GUM'', 25),
     (''cookies'', ''COOKIES'', 85), (''water'', ''WATER'', 95), (''juice'', ''JUICE'', 125),
     (''crackers'', ''CRACKERS'', 60), (''nuts'', ''NUTS'', 150)]"
  by (simp add: setup_products_def add_product_def Products_init_def)

lemma shipped_coin:
  assumes "get_coin setup_coins k = Some c"
  shows "0 < snd c \<and> 5 dvd snd c"
proof -
  from assms have "(k, c) \<in> set setup_coins"
    by (simp add: get_coin_def map_of_SomeD)
  then have "snd c \<in> {5, 10, 25, 100, 200}"
    unfolding setup_coins_eq by auto
  then show ?thesis by auto
qed

lemma shipped_product:
  assumes "get_product setup_products k = Some p"
  shows "0 < snd p \<and> 5 dvd snd p"
proof -
  from assms have "(k, p) \<in> set setup_products"
    by (simp add: get_product_def map_of_SomeD)
  then have "snd p \<in> {5, 50, 75, 100, 25, 85, 95, 125, 60, 150}"
    unfolding setup_products_eq by auto
  then show ?thesis by auto
qed

lemma shipped_values: "get_values setup_coins = [200, 100, 25, 10, 5]"
  by (simp add: setup_coins_eq get_values_def)


lemma step_waiting_cases:
  assumes "state m = Some waiting" and "step m ev = Return m'"
  shows "change_due m' = change_due m
    \<and> ((\<exists>c. get_coin (coins m) ev = Some c \<and> state m' = Some add_coins
            \<and> amount (money m') = amount (money m) + snd c)
       \<or> (\<not> coin_exists (coins m) ev \<and> state m' = Some waiting \<and> money m' = money m))"
  using assms
  by (auto simp: step_def update_def State_update_def WaitingState_update_def coin_exists_def
      go_to_state_eqs add_coin_def add_def emit_def get_coin_def
      split: if_splits option.splits)

lemma step_add_coins_cases:
  assumes "state m = Some add_coins" and "step m ev = Return m'"
  shows "(ev = ''RETURN'' \<and> state m' = Some count_change
            \<and> change_due m' = amount (money m) \<and> amount (money m') = 0)
       \<or> (ev \<noteq> ''RETURN'' \<and> state m' = Some add_coins \<and> change_due m' = change_due m
            \<and> (\<exists>c. get_coin (coins m) ev = Some c
                  \<and> amount (money m') = amount (money m) + snd c))
       \<or> (ev \<noteq> ''RETURN'' \<and> state m' = Some add_coins \<and> change_due m' = change_due m
            \<and> \<not> coin_exists (coins m) ev
            \<and> (\<exists>p. get_product (products m) ev = Some p \<and> snd p \<le> amount (money m)
                  \<and> amount (money m') = amount (money m) - snd p))
       \<or> (ev \<noteq> ''RETURN'' \<and> state m' = Some add_coins \<and> change_due m' = change_due m
            \<and> \<not> coin_exists (coins m) ev \<and> money m' = money m)"
  using assms
  by (auto simp: step_def update_def State_update_def AddCoinsState_update_def coin_exists_def
      product_exists_def go_to_state_eqs add_coin_def add_def emit_def get_coin_def
      get_product_def Let_def get_amount_def clear_def subtract_def
      split: if_splits option.splits)

lemma step_mult5:
  assumes st: "step m ev = Return m'"
    and cfg: "coins m = setup_coins" "products m = setup_products"
      "coin_values m = [200, 100, 25, 10, 5]"
    and inv: "mult5 m"
  shows "mult5 m'"
proof (cases "state m")
  case None
  with st inv show ?thesis
    by (auto simp: step_def update_def mult5_def)
next
  case (Some s)
  show ?thesis
  proof (cases s)
    case waiting
    from step_waiting_cases[OF _ st] Some waiting inv cfg show ?thesis
      unfolding mult5_def by (auto dest!: shipped_coin)
  next
    case add_coins
    from step_add_coins_cases[OF _ st] Some add_coins inv cfg show ?thesis
      unfolding mult5_def by (auto dest!: shipped_coin shipped_product)
  next
    case deliver_product
    with Some st inv show ?thesis
      by (auto simp: step_def update_def State_update_def DeliverProductState_update_def
          mult5_def)
  next
    case count_change
    have pos: "\<forall>c \<in> set (coin_values m). 0 < c" by (simp add: cfg)
    from inv have "0 \<le> change_due m" "5 dvd change_due m"
      by (simp_all add: mult5_def)
    then have r: "remainder (coin_values m) (change_due m) = 0"
      unfolding cfg by (rule shipped_remainder)
    from step_count_change[OF _ pos, of ev] Some count_change st
    have "change_due m' = 0" "money m' = money m"
      by (simp_all add: r)
    with inv show ?thesis
      by (simp add: mult5_def)
  qed
qed

lemma reachable_mult5:
  "reachable w setup_products setup_coins m \<Longrightarrow> mult5 m"
proof (induction rule: reachable.induct)
  case (reach_start m)
  then show ?case
    by (auto simp: start_eq VendingMachine_init_def Money_init_def mult5_def)
next
  case (reach_step m ev m')
  from reachable_config[OF reach_step.hyps(1)] shipped_values
  have "coins m = setup_coins" "products m = setup_products"
    "coin_values m = [200, 100, 25, 10, 5]"
    by simp_all
  from step_mult5[OF reach_step.hyps(2) this reach_step.IH] show ?case .
qed

text \<open>
  C10. In the shipped configuration every coin value and every product price is a
  positive multiple of 5. So in every machine reachable from the start the balance and
  the owed amount are non-negative multiples of 5, every update returns, and the update
  of \<^verbatim>\<open>count_change\<close> pays the owed amount out in full: its coin signals add up to
  the owed amount, nothing is owed afterwards and the machine is in \<^verbatim>\<open>waiting\<close>. The
  case of change that cannot be made does not arise.
\<close>

theorem shipped_change_exact:
  assumes "reachable w setup_products setup_coins m"
  shows "(\<forall>c \<in> set (coin_values m). 0 < c \<and> 5 dvd c)
    \<and> (\<forall>k c. get_coin (coins m) k = Some c \<longrightarrow> 0 < snd c \<and> 5 dvd snd c)
    \<and> (\<forall>k p. get_product (products m) k = Some p \<longrightarrow> 0 < snd p \<and> 5 dvd snd p)
    \<and> 0 \<le> amount (money m) \<and> 5 dvd amount (money m)
    \<and> 0 \<le> change_due m \<and> 5 dvd change_due m
    \<and> (\<forall>ev. \<exists>m'. step m ev = Return m')
    \<and> (state m = Some count_change \<longrightarrow>
         (\<forall>ev. \<exists>m'. step m ev = Return m' \<and> change_due m' = 0 \<and> state m' = Some waiting
             \<and> sum_list (coin_signals (emitted m m')) = change_due m))"
proof -
  from reachable_config[OF assms] shipped_values
  have cfg: "coins m = setup_coins" "products m = setup_products"
    "coin_values m = [200, 100, 25, 10, 5]"
    by simp_all
  have inv: "mult5 m" by (rule reachable_mult5[OF assms])
  have pos: "\<forall>c \<in> set (coin_values m). 0 < c" by (simp add: cfg)
  have a: "\<forall>c \<in> set (coin_values m). 0 < c \<and> 5 dvd c" by (simp add: cfg)
  have b: "\<forall>k c. get_coin (coins m) k = Some c \<longrightarrow> 0 < snd c \<and> 5 dvd snd c"
    using shipped_coin by (simp add: cfg)
  have c: "\<forall>k p. get_product (products m) k = Some p \<longrightarrow> 0 < snd p \<and> 5 dvd snd p"
    using shipped_product by (simp add: cfg)
  have d: "\<forall>ev. \<exists>m'. step m ev = Return m'"
    using step_total[OF pos] by blast
  have e: "\<exists>m'. step m ev = Return m' \<and> change_due m' = 0 \<and> state m' = Some waiting
             \<and> sum_list (coin_signals (emitted m m')) = change_due m"
    if cc: "state m = Some count_change" for ev
  proof -
    from inv have "0 \<le> change_due m" "5 dvd change_due m"
      by (simp_all add: mult5_def)
    then have r: "remainder (coin_values m) (change_due m) = 0"
      unfolding cfg by (rule shipped_remainder)
    have "sum_list (payout (coin_values m) (change_due m))
            + remainder (coin_values m) (change_due m) = change_due m"
      using inv by (intro payout_sum[OF pos]) (simp add: mult5_def)
    with r have s: "sum_list (payout (coin_values m) (change_due m)) = change_due m"
      by simp
    from step_count_change[OF cc pos, of ev] r s show ?thesis by auto
  qed
  from a b c d e inv show ?thesis
    unfolding mult5_def by blast
qed

theorem shipped_change_exact_witness:
  "reachable True setup_products setup_coins return_pressed
   \<and> state return_pressed = Some count_change
   \<and> change_due return_pressed = 10 \<and> 5 dvd change_due return_pressed
   \<and> step return_pressed ''__TIMEOUT__''
       = Return (machine_after return_pressed [''__TIMEOUT__''])
   \<and> change_due (machine_after return_pressed [''__TIMEOUT__'']) = 0
   \<and> state (machine_after return_pressed [''__TIMEOUT__'']) = Some waiting
   \<and> sum_list (coin_signals (emitted return_pressed
        (machine_after return_pressed [''__TIMEOUT__'']))) = 10"
proof -
  have r: "reachable True setup_products setup_coins return_pressed"
    by (rule reachable_run[OF reachable_shipped return_pressed_eq(1)])
  have s: "state return_pressed = Some count_change"
    and c: "change_due return_pressed = 10"
    by (simp_all add: return_pressed_eq(2))
  from shipped_change_exact[OF r] s obtain m' where
    m': "step return_pressed ''__TIMEOUT__'' = Return m'" "change_due m' = 0"
      "state m' = Some waiting"
      "sum_list (coin_signals (emitted return_pressed m')) = change_due return_pressed"
    and d: "5 dvd change_due return_pressed"
    by blast
  have a: "machine_after return_pressed [''__TIMEOUT__''] = m'"
    using m'(1) by (simp add: machine_after_def)
  show ?thesis
    using r s c d m' by (simp only: a)
qed

subsection \<open>Buying for the exact price, then asking for change\<close>

lemma run_append:
  "run m (xs @ ys) =
     (case run m xs of Return m' \<Rightarrow> run m' ys | Raise e \<Rightarrow> Raise e | Hang \<Rightarrow> Hang)"
  by (induction xs arbitrary: m) (simp_all split: result.splits)

lemma step_coin:
  assumes "state m = Some waiting \<or> state m = Some add_coins"
    and "coin_exists (coins m) ev" and "ev \<noteq> ''RETURN''"
  shows "\<exists>m'. step m ev = Return m' \<and> state m' = Some add_coins
    \<and> amount (money m') = amount (money m) + coin_total (coins m) [ev]
    \<and> change_due m' = change_due m \<and> coins m' = coins m \<and> products m' = products m
    \<and> coin_values m' = coin_values m \<and> window m' = window m
    \<and> emitted m m' = (if window m
         then [Display (amount (money m) + coin_total (coins m) [ev])] else [])"
  using assms
  by (auto simp: step_def update_def State_update_def WaitingState_update_def
      AddCoinsState_update_def coin_exists_def go_to_state_eqs add_coin_def add_def
      get_coin_def coin_total_def trace_update_display emitted_def)

text \<open>The refreshes of the display while coins are inserted.\<close>

lemma run_coins:
  assumes "state m = Some waiting \<or> state m = Some add_coins"
    and "\<forall>k \<in> set keys. coin_exists (coins m) k \<and> k \<noteq> ''RETURN''"
  shows "\<exists>m'. run m keys = Return m'
    \<and> state m' = (if keys = [] then state m else Some add_coins)
    \<and> amount (money m') = amount (money m) + coin_total (coins m) keys
    \<and> change_due m' = change_due m \<and> coins m' = coins m \<and> products m' = products m
    \<and> coin_values m' = coin_values m \<and> window m' = window m
    \<and> (\<exists>es. trace m' = trace m @ es \<and> set es \<subseteq> range Display
          \<and> length es = (if window m then length keys else 0))"
  using assms
proof (induction keys arbitrary: m)
  case Nil
  then show ?case by (simp add: coin_total_def)
next
  case (Cons k keys)
  from Cons.prems have k: "coin_exists (coins m) k" "k \<noteq> ''RETURN''" by simp_all
  from step_coin[OF Cons.prems(1) k] obtain m1 where
    m1: "step m k = Return m1" "state m1 = Some add_coins"
      "amount (money m1) = amount (money m) + coin_total (coins m) [k]"
      "change_due m1 = change_due m" "coins m1 = coins m" "products m1 = products m"
      "coin_values m1 = coin_values m" "window m1 = window m"
      "emitted m m1 = (if window m
         then [Display (amount (money m) + coin_total (coins m) [k])] else [])"
    by blast
  define es1 where "es1 = emitted m m1"
  have t1: "trace m1 = trace m @ es1"
    using m1(1) Cons.prems(1) k
    by (auto simp: es1_def emitted_def step_def update_def State_update_def
      WaitingState_update_def AddCoinsState_update_def go_to_state_eqs add_coin_def
      trace_update_display split: if_splits option.splits)
  have e1: "set es1 \<subseteq> range Display" "length es1 = (if window m then 1 else 0)"
    using m1(9) by (auto simp: es1_def)
  have "\<exists>m'. run m1 keys = Return m'
    \<and> state m' = (if keys = [] then state m1 else Some add_coins)
    \<and> amount (money m') = amount (money m1) + coin_total (coins m1) keys
    \<and> change_due m' = change_due m1 \<and> coins m' = coins m1 \<and> products m' = products m1
    \<and> coin_values m' = coin_values m1 \<and> window m' = window m1
    \<and> (\<exists>es. trace m' = trace m1 @ es \<and> set es \<subseteq> range Display
          \<and> length es = (if window m1 then length keys else 0))"
    using Cons.prems m1 by (intro Cons.IH) simp_all
  then obtain m' es where
    m': "run m1 keys = Return m'" "state m' = (if keys = [] then state m1 else Some add_coins)"
      "amount (money m') = amount (money m1) + coin_total (coins m1) keys"
      "change_due m' = change_due m1" "coins m' = coins m1" "products m' = products m1"
      "coin_values m' = coin_values m1" "window m' = window m1"
      "trace m' = trace m1 @ es" "set es \<subseteq> range Display"
      "length es = (if window m1 then length keys else 0)"
    by blast
  have t: "trace m' = trace m @ (es1 @ es)" "set (es1 @ es) \<subseteq> range Display"
    "length (es1 @ es) = (if window m then length (k # keys) else 0)"
    using t1 e1 m' m1(8) by auto
  have a: "amount (money m') = amount (money m) + coin_total (coins m) (k # keys)"
    using m1 m' by (simp add: coin_total_def)
  have r: "run m (k # keys) = Return m'" using m1 m' by simp
  have s: "state m' = Some add_coins" using m1 m' by simp
  have c: "change_due m' = change_due m" "coins m' = coins m" "products m' = products m"
    "coin_values m' = coin_values m" "window m' = window m"
    using m1 m' by simp_all
  from r s a c t show ?case
    by (simp only: list.distinct if_False) blast
qed

lemma step_buy:
  assumes "state m = Some add_coins" and "ev \<noteq> ''RETURN''"
    and "\<not> coin_exists (coins m) ev"
    and "get_product (products m) ev = Some (n, price)" and "price \<le> amount (money m)"
  shows "\<exists>m'. step m ev = Return m' \<and> state m' = Some add_coins
    \<and> amount (money m') = amount (money m) - price
    \<and> change_due m' = change_due m \<and> coin_values m' = coin_values m
    \<and> window m' = window m
    \<and> emitted m m' = [Buzz n, DispenseProduct, RemainingBalance (amount (money m) - price)]
         @ (if window m then [Display (amount (money m) - price)] else [])"
  using assms
  by (auto simp: step_def update_def State_update_def AddCoinsState_update_def
      product_exists_def get_product_def go_to_state_eqs Let_def get_amount_def subtract_def
      trace_update_display emitted_def)


lemma round_trip_general:
  assumes w: "state m = Some waiting" and z: "amount (money m) = 0"
    and pos: "\<forall>c \<in> set (coin_values m). 0 < c"
    and keys: "\<forall>k \<in> set keys. coin_exists (coins m) k \<and> k \<noteq> ''RETURN''" "keys \<noteq> []"
    and p: "\<not> coin_exists (coins m) p" "p \<noteq> ''RETURN''"
      "get_product (products m) p = Some (n, price)"
    and total: "coin_total (coins m) keys = price"
  shows "\<exists>m1 m2 m3. run m keys = Return m1 \<and> state m1 = Some add_coins
    \<and> amount (money m1) = price \<and> set (emitted m m1) \<subseteq> range Display
    \<and> step m1 p = Return m2 \<and> state m2 = Some add_coins \<and> amount (money m2) = 0
    \<and> emitted m1 m2 = [Buzz n, DispenseProduct, RemainingBalance 0]
         @ (if window m then [Display 0] else [])
    \<and> step m2 ''RETURN'' = Return m3 \<and> state m3 = Some count_change
    \<and> change_due m3 = 0 \<and> amount (money m3) = 0
    \<and> emitted m2 m3 = [ChangeDue 0, BlinkChangeLed 3]
         @ (if window m then [Display 0] else [])
    \<and> run m (keys @ [p, ''RETURN'']) = Return m3
    \<and> coin_signals (emitted m m3) = []
    \<and> (\<forall>ev. \<exists>m4. step m3 ev = Return m4 \<and> state m4 = Some waiting
           \<and> amount (money m4) = 0 \<and> change_due m4 = 0
           \<and> emitted m3 m4 = (if window m then [Display 0] else [])
           \<and> coin_signals (emitted m m4) = [])"
proof -
  from run_coins[OF disjI1[OF w] keys(1)] keys(2) z total obtain m1 es1 where
    m1: "run m keys = Return m1" "state m1 = Some add_coins" "amount (money m1) = price"
      "coins m1 = coins m" "products m1 = products m" "coin_values m1 = coin_values m"
      "window m1 = window m" "trace m1 = trace m @ es1" "set es1 \<subseteq> range Display"
    by auto
  have e1: "emitted m m1 = es1" by (simp add: emitted_def m1(8))
  have q1: "coin_signals es1 = []"
    using m1(9) by (induction es1) auto
  have "\<exists>m'. step m1 p = Return m' \<and> state m' = Some add_coins
    \<and> amount (money m') = amount (money m1) - price
    \<and> change_due m' = change_due m1 \<and> coin_values m' = coin_values m1
    \<and> window m' = window m1
    \<and> emitted m1 m' = [Buzz n, DispenseProduct, RemainingBalance (amount (money m1) - price)]
         @ (if window m1 then [Display (amount (money m1) - price)] else [])"
    using m1 p by (intro step_buy) simp_all
  then obtain m2 where
    m2: "step m1 p = Return m2" "state m2 = Some add_coins" "amount (money m2) = 0"
      "coin_values m2 = coin_values m" "window m2 = window m"
      "emitted m1 m2 = [Buzz n, DispenseProduct, RemainingBalance 0]
         @ (if window m then [Display 0] else [])"
    using m1 by auto
  from step_return[OF m2(2)] obtain m3 where
    m3: "step m2 ''RETURN'' = Return m3" "change_due m3 = 0" "amount (money m3) = 0"
      "state m3 = Some count_change" "coin_values m3 = coin_values m"
      "trace m3 = trace m2 @ [ChangeDue 0, BlinkChangeLed 3]
         @ (if window m then [Display 0] else [])"
    using m2 by auto
  have w3: "window m3 = window m"
    using step_config[OF m3(1)] m2(5) by simp
  have e3: "emitted m2 m3 = [ChangeDue 0, BlinkChangeLed 3]
         @ (if window m then [Display 0] else [])"
    by (simp add: emitted_def m3(6))
  have t2: "trace m2 = trace m1 @ ([Buzz n, DispenseProduct, RemainingBalance 0]
         @ (if window m then [Display 0] else []))"
    using m2(1,6) m1(2) p m1(3,4,5,7)
    by (auto simp: emitted_def step_def update_def State_update_def AddCoinsState_update_def
      product_exists_def get_product_def go_to_state_eqs Let_def get_amount_def subtract_def
      trace_update_display split: if_splits)
  have r3: "run m (keys @ [p, ''RETURN'']) = Return m3"
    using m1 m2 m3 by (simp add: run_append)
  have t3: "trace m3 = trace m @ (es1 @ [Buzz n, DispenseProduct, RemainingBalance 0]
         @ (if window m then [Display 0] else []) @ [ChangeDue 0, BlinkChangeLed 3]
         @ (if window m then [Display 0] else []))"
    using m1(8) t2 m3(6) by simp
  have q3: "coin_signals (emitted m m3) = []"
    using q1 by (simp add: emitted_def t3 coin_signals_def)
  have pos3: "\<forall>c \<in> set (coin_values m3). 0 < c"
    using pos m3 by simp
  have small: "\<forall>c \<in> set (coin_values m3). change_due m3 < c"
    using pos3 m3 by simp
  from remainder_small[OF pos3 small]
  have rp: "remainder (coin_values m3) (change_due m3) = 0"
    "payout (coin_values m3) (change_due m3) = []"
    using m3 by simp_all
  have "\<exists>m4. step m3 ev = Return m4 \<and> state m4 = Some waiting
           \<and> amount (money m4) = 0 \<and> change_due m4 = 0
           \<and> emitted m3 m4 = (if window m then [Display 0] else [])
           \<and> coin_signals (emitted m m4) = []" for ev
  proof -
    from step_count_change[OF m3(4) pos3, of ev] obtain m4 where
      m4: "step m3 ev = Return m4" "change_due m4 = 0" "state m4 = Some waiting"
        "money m4 = money m3"
        "trace m4 = trace m3 @ (if window m3 then [Display (amount (money m3))] else [])"
      by (auto simp: rp)
    have e4: "emitted m3 m4 = (if window m then [Display 0] else [])"
      by (simp add: emitted_def m4(5) w3 m3(3))
    have "coin_signals (emitted m m4) = []"
      using q1 by (simp add: emitted_def m4(5) t3 coin_signals_def)
    with m4 m3 e4 show ?thesis by simp
  qed
  with m1(1,2,3,9) e1 m2(1,2,3,6) m3(1,2,3,4) e3 r3 q3 show ?thesis by blast
qed


lemma shipped_fields:
  "state shipped = Some waiting" "amount (money shipped) = 0"
  "coin_values shipped = [200, 100, 25, 10, 5]" "coins shipped = setup_coins"
  "products shipped = setup_products" "window shipped"
  by (simp_all add: shipped_def VendingMachine_init_def Money_init_def shipped_values)

lemma shipped_product_key:
  assumes "get_product setup_products p = Some x"
  shows "\<not> coin_exists setup_coins p \<and> p \<noteq> ''RETURN''"
proof -
  from assms have "(p, x) \<in> set setup_products"
    by (simp add: get_product_def map_of_SomeD)
  then have "p \<in> {''surprise'', ''chips'', ''candy'', ''soda'', ''gum'', ''cookies'',
      ''water'', ''juice'', ''crackers'', ''nuts''}"
    unfolding setup_products_eq by auto
  then show ?thesis
    by (auto simp: coin_exists_def setup_coins_eq)
qed

lemma shipped_no_return_coin: "\<not> coin_exists setup_coins ''RETURN''"
  by (simp add: coin_exists_def setup_coins_eq)

text \<open>
  C8 (round trip). For every product of the shipped catalog and every sequence of
  shipped coins whose values add up to its price, from the start (\<^verbatim>\<open>waiting\<close>,
  balance 0):
  \<^item> inserting the coins returns in \<^verbatim>\<open>add_coins\<close> with the price as balance, having
    only refreshed the display;
  \<^item> selecting the product then delivers it: the update prints the product's name,
    calls \<^verbatim>\<open>dispense_product\<close>, takes the price and leaves balance 0 in \<^verbatim>\<open>add_coins\<close>;
  \<^item> the return event then sets \<open>change_due\<close> to 0 and enters \<^verbatim>\<open>count_change\<close>, whose
    entry action prints the change due and blinks the LED three times;
  \<^item> the update that follows, whatever its event, only refreshes the display and ends
    in \<^verbatim>\<open>waiting\<close> with balance 0; and the whole run has not signalled a single coin.

  The lemma \<open>round_trip_general\<close> is the same statement for any catalog with positive
  coin values in which the return event and the product are not coin keys.
\<close>

theorem round_trip:
  assumes "get_product setup_products p = Some (n, price)"
    and "\<forall>k \<in> set keys. coin_exists setup_coins k"
    and "coin_total setup_coins keys = price"
  shows "\<exists>m1 m2 m3. run shipped keys = Return m1 \<and> state m1 = Some add_coins
    \<and> amount (money m1) = price \<and> set (emitted shipped m1) \<subseteq> range Display
    \<and> step m1 p = Return m2 \<and> state m2 = Some add_coins \<and> amount (money m2) = 0
    \<and> emitted m1 m2 = [Buzz n, DispenseProduct, RemainingBalance 0, Display 0]
    \<and> step m2 ''RETURN'' = Return m3 \<and> state m3 = Some count_change
    \<and> change_due m3 = 0 \<and> amount (money m3) = 0
    \<and> emitted m2 m3 = [ChangeDue 0, BlinkChangeLed 3, Display 0]
    \<and> run shipped (keys @ [p, ''RETURN'']) = Return m3
    \<and> coin_signals (emitted shipped m3) = []
    \<and> (\<forall>ev. \<exists>m4. step m3 ev = Return m4 \<and> state m4 = Some waiting
           \<and> amount (money m4) = 0 \<and> change_due m4 = 0
           \<and> emitted m3 m4 = [Display 0]
           \<and> coin_signals (emitted shipped m4) = [])"
proof -
  have pos: "\<forall>c \<in> set (coin_values shipped). 0 < c"
    by (simp add: shipped_fields)
  have keys: "\<forall>k \<in> set keys. coin_exists (coins shipped) k \<and> k \<noteq> ''RETURN''"
    using assms(2) shipped_no_return_coin by (auto simp: shipped_fields)
  from shipped_product[OF assms(1)] have "0 < price" by simp
  with assms(3) have ne: "keys \<noteq> []"
    by (auto simp: coin_total_def)
  from shipped_product_key[OF assms(1)]
  have p: "\<not> coin_exists (coins shipped) p" "p \<noteq> ''RETURN''"
    by (simp_all add: shipped_fields)
  have g: "get_product (products shipped) p = Some (n, price)"
    using assms(1) by (simp add: shipped_fields)
  have t: "coin_total (coins shipped) keys = price"
    using assms(3) by (simp add: shipped_fields)
  from round_trip_general[OF shipped_fields(1,2) pos keys ne p g t]
  show ?thesis
    by (simp only: shipped_fields(6) if_True append.simps)
qed

theorem round_trip_witness:
  "get_product setup_products ''gum'' = Some (''GUM'', 25)
   \<and> coin_exists setup_coins ''10'' \<and> coin_exists setup_coins ''5''
   \<and> coin_total setup_coins [''10'', ''10'', ''5''] = 25
   \<and> run shipped [''10'', ''10'', ''5'', ''gum'', ''RETURN'', ''__TIMEOUT__'']
       = Return (machine_after shipped
           [''10'', ''10'', ''5'', ''gum'', ''RETURN'', ''__TIMEOUT__''])
   \<and> amount (money (machine_after shipped [''10'', ''10'', ''5''])) = 25
   \<and> emitted (machine_after shipped [''10'', ''10'', ''5''])
        (machine_after shipped [''10'', ''10'', ''5'', ''gum''])
       = [Buzz ''GUM'', DispenseProduct, RemainingBalance 0, Display 0]
   \<and> amount (money (machine_after shipped [''10'', ''10'', ''5'', ''gum''])) = 0
   \<and> change_due (machine_after shipped [''10'', ''10'', ''5'', ''gum'', ''RETURN'']) = 0
   \<and> state (machine_after shipped [''10'', ''10'', ''5'', ''gum'', ''RETURN''])
       = Some count_change
   \<and> coin_signals (emitted shipped (machine_after shipped
        [''10'', ''10'', ''5'', ''gum'', ''RETURN'', ''__TIMEOUT__''])) = []
   \<and> state (machine_after shipped
        [''10'', ''10'', ''5'', ''gum'', ''RETURN'', ''__TIMEOUT__'']) = Some waiting
   \<and> amount (money (machine_after shipped
        [''10'', ''10'', ''5'', ''gum'', ''RETURN'', ''__TIMEOUT__''])) = 0"
proof -
  have g: "get_product setup_products ''gum'' = Some (''GUM'', 25)"
    by (simp add: get_product_def setup_products_eq)
  have c: "coin_exists setup_coins ''10''" "coin_exists setup_coins ''5''"
    by (simp_all add: coin_exists_def setup_coins_eq)
  then have k: "\<forall>k \<in> set [''10'', ''10'', ''5'']. coin_exists setup_coins k"
    by simp
  have t: "coin_total setup_coins [''10'', ''10'', ''5''] = 25"
    by (simp add: coin_total_def get_coin_def setup_coins_eq)
  from round_trip[OF g k t] obtain m1 m2 m3 where
    m1: "run shipped [''10'', ''10'', ''5''] = Return m1" "amount (money m1) = 25"
    and m2: "step m1 ''gum'' = Return m2" "amount (money m2) = 0"
      "emitted m1 m2 = [Buzz ''GUM'', DispenseProduct, RemainingBalance 0, Display 0]"
    and m3: "run shipped ([''10'', ''10'', ''5''] @ [''gum'', ''RETURN'']) = Return m3"
      "state m3 = Some count_change" "change_due m3 = 0"
    and nx: "\<forall>ev. \<exists>m4. step m3 ev = Return m4 \<and> state m4 = Some waiting
           \<and> amount (money m4) = 0 \<and> change_due m4 = 0
           \<and> emitted m3 m4 = [Display 0]
           \<and> coin_signals (emitted shipped m4) = []"
    by blast
  from nx obtain m4 where
    m4: "step m3 ''__TIMEOUT__'' = Return m4" "state m4 = Some waiting"
      "amount (money m4) = 0" "coin_signals (emitted shipped m4) = []"
    by blast
  have "run m1 [''gum''] = Return m2"
    using m2(1) by simp
  then have "run shipped ([''10'', ''10'', ''5''] @ [''gum'']) = Return m2"
    by (simp only: run_append m1(1) result.case)
  then have r2: "run shipped [''10'', ''10'', ''5'', ''gum''] = Return m2"
    by (simp only: append.simps)
  have r3: "run shipped [''10'', ''10'', ''5'', ''gum'', ''RETURN''] = Return m3"
    using m3(1) by (simp only: append.simps)
  have "run m3 [''__TIMEOUT__''] = Return m4"
    using m4(1) by simp
  then have "run shipped ([''10'', ''10'', ''5'', ''gum'', ''RETURN''] @ [''__TIMEOUT__''])
          = Return m4"
    by (simp only: run_append r3 result.case)
  then have r4: "run shipped [''10'', ''10'', ''5'', ''gum'', ''RETURN'', ''__TIMEOUT__'']
          = Return m4"
    by (simp only: append.simps)
  have a1: "machine_after shipped [''10'', ''10'', ''5''] = m1"
    by (simp only: machine_after_def m1(1) result.case)
  have a2: "machine_after shipped [''10'', ''10'', ''5'', ''gum''] = m2"
    by (simp only: machine_after_def r2 result.case)
  have a3: "machine_after shipped [''10'', ''10'', ''5'', ''gum'', ''RETURN''] = m3"
    by (simp only: machine_after_def r3 result.case)
  have a4: "machine_after shipped [''10'', ''10'', ''5'', ''gum'', ''RETURN'', ''__TIMEOUT__'']
          = m4"
    by (simp only: machine_after_def r4 result.case)
  show ?thesis
    using g c t m1(2) m2(2,3) m3(2,3) m4(2,3,4) by (simp only: a1 a2 a3 a4 r4)
qed

end
